theory Spec2Isabelle
  imports Main "HOL-Library.Sublist"
begin

section \<open>Go values shared by the model\<close>

text \<open>
  The model follows \<^verbatim>\<open>pkg/operator/starter.go\<close>. A Go \<^verbatim>\<open>error\<close> is its message;
  the \<^verbatim>\<open>nil\<close> error is \<open>None\<close> of \<open>error option\<close>. A Go string and a \<^verbatim>\<open>[]byte\<close> are both
  byte sequences, here \<open>string\<close> (a list of 8-bit characters), so the conversions
  \<^verbatim>\<open>string(manifest)\<close> and \<^verbatim>\<open>[]byte(replaced)\<close> are the identity.
\<close>

datatype error = Errorf string

text \<open>A call either returns or panics (nil dereference, a library panic).\<close>

datatype 'a go = Panic string | Return 'a

definition operandImageEnvName :: string where
  "operandImageEnvName = ''OPERAND_IMAGE''"

definition webhookImageEnvName :: string where
  "webhookImageEnvName = ''WEBHOOK_IMAGE''"


section \<open>The conditional resources' predicates (starter.go, lines 93 to 116)\<close>

text \<open>
  \<^verbatim>\<open>staticcontrollercommon.NewIsSingleNodePlatformFn(informer)()\<close> is library code; what it
  returns is a parameter of the model. Every call is a read of the informer's cache, which
  other goroutines update, so the cluster state holds the answer of each successive read
  (\<open>topology c n\<close> is the answer to read number \<open>n\<close>) and counts the reads made so far.
  \<^verbatim>\<open>klog\<close> output is collected in the state.
\<close>

record precheck =
  isSNO :: bool
  precheckSucceeded :: bool
  err :: "error option"

datatype logline = Klog_Errorf string | Klog_V_Infof nat string | Klog_Info string

record cluster =
  topology :: "nat \<Rightarrow> precheck"
  reads :: nat
  klog :: "logline list"

definition NewIsSingleNodePlatformFn :: "cluster \<Rightarrow> precheck \<times> cluster" where
  "NewIsSingleNodePlatformFn c = (topology c (reads c), c\<lparr>reads := Suc (reads c)\<rparr>)"

definition errorString :: "error \<Rightarrow> string" where
  "errorString e = (case e of Errorf m \<Rightarrow> m)"

text \<open>The first closure (lines 93 to 104): the multi-node predicate, returning \<^verbatim>\<open>!isSNO\<close>.\<close>

definition shouldCreateFn :: "cluster \<Rightarrow> bool \<times> cluster" where
  "shouldCreateFn c =
     (case NewIsSingleNodePlatformFn c of (r, c1) \<Rightarrow>
        (case err r of
           Some e \<Rightarrow>
             (False, c1\<lparr>klog := klog c1 @
                [Klog_Errorf (''NewIsSingleNodePlatformFn failed: '' @ errorString e)]\<rparr>)
         | None \<Rightarrow>
             if \<not> precheckSucceeded r then
               (False, c1\<lparr>klog := klog c1 @
                  [Klog_V_Infof 4 ''NewIsSingleNodePlatformFn precheck did not succeed, skipping'']\<rparr>)
             else (\<not> isSNO r, c1)))"

text \<open>The second closure (lines 105 to 116): the single-node predicate, returning \<^verbatim>\<open>isSNO\<close>.\<close>

definition shouldDeleteFn :: "cluster \<Rightarrow> bool \<times> cluster" where
  "shouldDeleteFn c =
     (case NewIsSingleNodePlatformFn c of (r, c1) \<Rightarrow>
        (case err r of
           Some e \<Rightarrow>
             (False, c1\<lparr>klog := klog c1 @
                [Klog_Errorf (''NewIsSingleNodePlatformFn failed: '' @ errorString e)]\<rparr>)
         | None \<Rightarrow>
             if \<not> precheckSucceeded r then
               (False, c1\<lparr>klog := klog c1 @
                  [Klog_V_Infof 4 ''NewIsSingleNodePlatformFn precheck did not succeed, skipping'']\<rparr>)
             else (isSNO r, c1)))"

text \<open>
  One pass of the static resource controller over the conditional resources calls the
  first closure and then the second (the order of \<^verbatim>\<open>WithConditionalResources\<close>' arguments).
\<close>

definition evalConditionalResources :: "cluster \<Rightarrow> (bool \<times> bool) \<times> cluster" where
  "evalConditionalResources c =
     (case shouldCreateFn c of (multiNode, c1) \<Rightarrow>
        (case shouldDeleteFn c1 of (singleNode, c2) \<Rightarrow> ((multiNode, singleNode), c2)))"

definition indeterminate :: "precheck \<Rightarrow> bool" where
  "indeterminate r \<longleftrightarrow> err r \<noteq> None \<or> \<not> precheckSucceeded r"


section \<open>The placeholder hook (starter.go, lines 244 to 254)\<close>

text \<open>
  \<^verbatim>\<open>operatorv1.OperatorSpec\<close> is declared in the API module; these are its fields.
  \<^verbatim>\<open>LogLevel\<close> is a Go string type whose named values are the four below.
\<close>

record OperatorSpec =
  ManagementState :: string
  LogLevel :: string
  OperatorLogLevel :: string
  UnsupportedConfigOverrides :: string
  ObservedConfig :: string

definition Normal :: string where "Normal = ''Normal''"
definition Debug :: string where "Debug = ''Debug''"
definition Trace :: string where "Trace = ''Trace''"
definition TraceAll :: string where "TraceAll = ''TraceAll''"

text \<open>
  Modelled from the spec: \<^verbatim>\<open>loglevel.LogLevelToVerbosity\<close> is library code that is not
  under src/. Section 4.2 of the spec asks for a deterministic, monotonic mapping from the
  log-level enum to a verbosity ordinal in a fixed finite range (0 to 10); the ordinals
  are the klog verbosities the API documents for each level, and any other value is
  treated as \<^verbatim>\<open>Normal\<close>.
\<close>

definition LogLevelToVerbosity :: "string \<Rightarrow> int" where
  "LogLevelToVerbosity logLevel =
     (if logLevel = Normal then 2
      else if logLevel = Debug then 4
      else if logLevel = Trace then 6
      else if logLevel = TraceAll then 8
      else 2)"

text \<open>The enum's values from the lowest level to the highest.\<close>

definition logLevels :: "string list" where
  "logLevels = [Normal, Debug, Trace, TraceAll]"

text \<open>\<^verbatim>\<open>fmt.Sprint\<close> of an \<^verbatim>\<open>int\<close>: its decimal rendering, with a sign when negative.\<close>

definition digit :: "nat \<Rightarrow> char" where
  "digit n = ''0123456789'' ! (n mod 10)"

function decimal :: "nat \<Rightarrow> string" where
  "decimal n = (if n < 10 then [digit n] else decimal (n div 10) @ [digit n])"
  by pat_completeness auto
termination
  by (relation "measure (\<lambda>n. n)") auto

definition Sprint :: "int \<Rightarrow> string" where
  "Sprint i = (if i < 0 then CHR ''-'' # decimal (nat (- i)) else decimal (nat i))"

text \<open>
  \<^verbatim>\<open>strings.NewReplacer(oldnew...)\<close> pairs its arguments up and panics on an odd number of
  them. \<^verbatim>\<open>Replace\<close> scans the string from the left; at each position the first pair, in
  argument order, whose old string starts there is taken: its new string is written and
  the scan continues after the old string (so what was written is never scanned again);
  where no pair matches, the byte is copied. Go's special treatment of an empty old string
  is left out (\<open>lookup\<close> skips such a pair): the hook's old strings are the two tokens.
\<close>

type_synonym Replacer = "(string \<times> string) list"

fun NewReplacer :: "string list \<Rightarrow> Replacer go" where
  "NewReplacer [] = Return []"
| "NewReplacer [x] = Panic ''strings.NewReplacer: odd argument count''"
| "NewReplacer (old # new # oldnew) =
     (case NewReplacer oldnew of Panic m \<Rightarrow> Panic m | Return r \<Rightarrow> Return ((old, new) # r))"

fun lookup :: "Replacer \<Rightarrow> string \<Rightarrow> (string \<times> string) option" where
  "lookup [] s = None"
| "lookup ((old, new) # r) s =
     (if old \<noteq> [] \<and> prefix old s then Some (old, new) else lookup r s)"

fun Replace :: "Replacer \<Rightarrow> string \<Rightarrow> string" where
  "Replace r [] = []"
| "Replace r (c # cs) =
     (case lookup r (c # cs) of
        Some (old, new) \<Rightarrow> new @ Replace r (drop (length old - 1) cs)
      | None \<Rightarrow> c # Replace r cs)"

text \<open>The slice \<^verbatim>\<open>pairs\<close> after the \<^verbatim>\<open>append\<close> of line 250.\<close>

definition pairs :: "string \<Rightarrow> OperatorSpec \<Rightarrow> string list" where
  "pairs imageName spec =
     [''${OPERAND_IMAGE}'', imageName] @
     [''${LOG_LEVEL}'', Sprint (LogLevelToVerbosity (LogLevel spec))]"

text \<open>
  The hook takes a pointer to the spec: \<open>None\<close> is the nil pointer, whose dereference
  \<^verbatim>\<open>spec.LogLevel\<close> panics. The result is the pair of the manifest and the error.
\<close>

definition replacePlaceholdersHook ::
  "string \<Rightarrow> OperatorSpec option \<Rightarrow> string \<Rightarrow> (string \<times> error option) go" where
  "replacePlaceholdersHook imageName spec manifest =
     (case spec of
        None \<Rightarrow> Panic ''invalid memory address or nil pointer dereference''
      | Some sp \<Rightarrow>
          (case NewReplacer (pairs imageName sp) of
             Panic m \<Rightarrow> Panic m
           | Return r \<Rightarrow> Return (Replace r manifest, None)))"

text \<open>The replacer the hook builds, and the value of its variable \<^verbatim>\<open>replaced\<close>.\<close>

definition replacer :: "string \<Rightarrow> OperatorSpec \<Rightarrow> Replacer" where
  "replacer imageName spec =
     [(''${OPERAND_IMAGE}'', imageName),
      (''${LOG_LEVEL}'', Sprint (LogLevelToVerbosity (LogLevel spec)))]"

definition replaced :: "string \<Rightarrow> OperatorSpec \<Rightarrow> string \<Rightarrow> string" where
  "replaced imageName spec manifest = Replace (replacer imageName spec) manifest"


section \<open>What a global replacement of the tokens is\<close>

text \<open>
  The reading of the spec's "global string replace of known token to value pairs": a
  manifest is cut at the occurrences of the two tokens into texts that hold no token,
  each followed by a token, and a last text; the result has the same texts, with every
  token replaced by its value.
\<close>

datatype token = OPERAND_IMAGE | LOG_LEVEL

definition literal :: "token \<Rightarrow> string" where
  "literal k = (case k of OPERAND_IMAGE \<Rightarrow> ''${OPERAND_IMAGE}'' | LOG_LEVEL \<Rightarrow> ''${LOG_LEVEL}'')"

definition token_free :: "string \<Rightarrow> bool" where
  "token_free t \<longleftrightarrow> \<not> sublist ''${OPERAND_IMAGE}'' t \<and> \<not> sublist ''${LOG_LEVEL}'' t"

definition spec_template :: "(string \<times> token) list \<Rightarrow> string \<Rightarrow> string" where
  "spec_template parts rest = concat (map (\<lambda>(t, k). t @ literal k) parts) @ rest"

definition spec_value :: "string \<Rightarrow> OperatorSpec \<Rightarrow> token \<Rightarrow> string" where
  "spec_value imageName spec k =
     (case k of OPERAND_IMAGE \<Rightarrow> imageName
      | LOG_LEVEL \<Rightarrow> Sprint (LogLevelToVerbosity (LogLevel spec)))"

definition spec_replace_all ::
  "string \<Rightarrow> OperatorSpec \<Rightarrow> (string \<times> token) list \<Rightarrow> string \<Rightarrow> string" where
  "spec_replace_all imageName spec parts rest =
     concat (map (\<lambda>(t, k). t @ spec_value imageName spec k) parts) @ rest"

definition texts_token_free :: "(string \<times> token) list \<Rightarrow> string \<Rightarrow> bool" where
  "texts_token_free parts rest \<longleftrightarrow> list_all (\<lambda>(t, k). token_free t) parts \<and> token_free rest"

text \<open>A placeholder \<^verbatim>\<open>${NAME}\<close> that the hook does not know.\<close>

definition unknown_name :: "string \<Rightarrow> bool" where
  "unknown_name name \<longleftrightarrow>
     CHR ''$'' \<notin> set name \<and> CHR ''}'' \<notin> set name \<and>
     name \<noteq> ''OPERAND_IMAGE'' \<and> name \<noteq> ''LOG_LEVEL''"

definition placeholder :: "string \<Rightarrow> string" where
  "placeholder name = ''${'' @ name @ ''}''"


section \<open>Startup and shutdown (starter.go, lines 48 to 242)\<close>

text \<open>
  The environment of \<^verbatim>\<open>RunOperator\<close>: whether each client constructor fails, what
  \<^verbatim>\<open>assets.ReadFile\<close> returns for a file name, the process environment read by
  \<^verbatim>\<open>os.Getenv\<close>, and whether the context's \<^verbatim>\<open>Done\<close> channel is ever closed.
\<close>

record environment =
  kubeClientErr :: "error option"
  configClientErr :: "error option"
  apiExtClientErr :: "error option"
  operatorClientErr :: "error option"
  ReadFile :: "string \<Rightarrow> error + string"
  environ :: "string \<rightharpoonup> string"
  ctxDone :: bool

text \<open>
  What the process has done: the informer factories started, the controllers launched in
  goroutines of their own, whether the operator was marked not removable, and the log.
\<close>

record process =
  informersStarted :: "string list"
  controllersRunning :: "string list"
  notRemovable :: bool
  infoLog :: "logline list"

text \<open>A call of \<^verbatim>\<open>RunOperator\<close> returns an error value, or blocks for ever.\<close>

datatype outcome = Returned "error option" | Blocked

definition Getenv :: "environment \<Rightarrow> string \<Rightarrow> string" where
  "Getenv env name = (case environ env name of None \<Rightarrow> [] | Some v \<Rightarrow> v)"

definition Info :: "string \<Rightarrow> process \<Rightarrow> process" where
  "Info m p = p\<lparr>infoLog := infoLog p @ [Klog_Info m]\<rparr>"

definition Start :: "string \<Rightarrow> process \<Rightarrow> process" where
  "Start informer p = p\<lparr>informersStarted := informersStarted p @ [informer]\<rparr>"

definition goRun :: "string \<Rightarrow> process \<Rightarrow> process" where
  "goRun controller p = p\<lparr>controllersRunning := controllersRunning p @ [controller]\<rparr>"

definition RunOperator :: "environment \<Rightarrow> process \<Rightarrow> process \<times> outcome" where
  "RunOperator env p =
     (case kubeClientErr env of Some e \<Rightarrow> (p, Returned (Some e)) | None \<Rightarrow>
     (case configClientErr env of Some e \<Rightarrow> (p, Returned (Some e)) | None \<Rightarrow>
     (case apiExtClientErr env of Some e \<Rightarrow> (p, Returned (Some e)) | None \<Rightarrow>
     (case operatorClientErr env of Some e \<Rightarrow> (p, Returned (Some e)) | None \<Rightarrow>
     (case ReadFile env ''csi_controller_deployment.yaml'' of
        Inl e \<Rightarrow> (p, Returned (Some e)) | Inr controllerDeploymentManifest \<Rightarrow>
     (case ReadFile env ''webhook_deployment.yaml'' of
        Inl e \<Rightarrow> (p, Returned (Some e)) | Inr webhookDeploymentManifest \<Rightarrow>
        (let p1 = p\<lparr>notRemovable := True\<rparr>;
             p2 = Info ''Starting the Informers.'' p1;
             p3 = fold Start
                    [''dynamicInformers'', ''configInformers'', ''kubeInformersForNamespaces''] p2;
             p4 = Info ''Starting the controllers'' p3;
             p5 = fold goRun
                    [''clusterOperatorStatus'', ''logLevelController'',
                     ''managementStateController'', ''staticResourcesController'',
                     ''controllerDeploymentController'', ''webhookDeploymentController'',
                     ''versionController'', ''cndController''] p4
         in if ctxDone env then (p5, Returned (Some (Errorf ''stopped''))) else (p5, Blocked))))))))"

text \<open>
  The hooks handed to the two deployment controllers (lines 135 and 161);
  \<^verbatim>\<open>os.Getenv\<close> gives the empty string for a variable that is not set.
\<close>

definition controllerDeploymentHook ::
  "environment \<Rightarrow> OperatorSpec option \<Rightarrow> string \<Rightarrow> (string \<times> error option) go" where
  "controllerDeploymentHook env = replacePlaceholdersHook (Getenv env operandImageEnvName)"

definition webhookDeploymentHook ::
  "environment \<Rightarrow> OperatorSpec option \<Rightarrow> string \<Rightarrow> (string \<times> error option) go" where
  "webhookDeploymentHook env = replacePlaceholdersHook (Getenv env webhookImageEnvName)"

text \<open>The process before \<^verbatim>\<open>RunOperator\<close> is called.\<close>

definition fresh :: process where
  "fresh = \<lparr>informersStarted = [], controllersRunning = [], notRemovable = False, infoLog = []\<rparr>"

text \<open>The errors of the startup steps that failed.\<close>

definition startupFailures :: "environment \<Rightarrow> error list" where
  "startupFailures env =
     concat (map (\<lambda>x. case x of None \<Rightarrow> [] | Some e \<Rightarrow> [e])
       [kubeClientErr env, configClientErr env, apiExtClientErr env, operatorClientErr env]) @
     concat (map (\<lambda>f. case ReadFile env f of Inl e \<Rightarrow> [e] | Inr m \<Rightarrow> [])
       [''csi_controller_deployment.yaml'', ''webhook_deployment.yaml''])"


section \<open>The version record\<close>

text \<open>
  Modelled from the spec: \<^verbatim>\<open>NewVersionController\<close> is called at lines 169 to 178 and its
  code is not under src/. Sections 3 and 4.4 of the spec: the version record maps a
  component name to its reported version and holds the target version; an aggregation
  pass advances a component's reported version to the target only when each of its
  sub-components (operator pod image, operand deployment, webhook deployment) confirms
  the target version, and otherwise leaves the reported version as it is.
\<close>

record SubComponents =
  operatorPodImage :: string
  operandDeployment :: string
  webhookDeployment :: string

record VersionRecord =
  reported :: "string \<rightharpoonup> string"
  target :: string

definition confirms :: "string \<Rightarrow> SubComponents \<Rightarrow> bool" where
  "confirms v obs \<longleftrightarrow>
     operatorPodImage obs = v \<and> operandDeployment obs = v \<and> webhookDeployment obs = v"

definition advance :: "string \<times> SubComponents \<Rightarrow> VersionRecord \<Rightarrow> VersionRecord" where
  "advance co vr =
     (case co of (component, obs) \<Rightarrow>
        if confirms (target vr) obs
        then vr\<lparr>reported := (reported vr)(component \<mapsto> target vr)\<rparr>
        else vr)"

text \<open>One pass takes what was observed of each component's sub-components.\<close>

definition aggregationPass :: "(string \<times> SubComponents) list \<Rightarrow> VersionRecord \<Rightarrow> VersionRecord" where
  "aggregationPass observed vr = fold advance observed vr"

definition aggregationPasses ::
  "(string \<times> SubComponents) list list \<Rightarrow> VersionRecord \<Rightarrow> VersionRecord" where
  "aggregationPasses passes vr = fold aggregationPass passes vr"


section \<open>Notions used in the proofs, and sample inputs\<close>

text \<open>Every old string of the replacer is a dollar sign followed by bytes that are not.\<close>

definition dollar_keyed :: "Replacer \<Rightarrow> bool" where
  "dollar_keyed r \<longleftrightarrow> (\<forall>(k, v) \<in> set r. \<exists>k'. k = CHR ''$'' # k' \<and> CHR ''$'' \<notin> set k')"

definition key_free :: "Replacer \<Rightarrow> string \<Rightarrow> bool" where
  "key_free r t \<longleftrightarrow> (\<forall>(k, v) \<in> set r. \<not> sublist k t)"

text \<open>
  Every new string is non-empty, holds no dollar sign and begins with a byte that occurs
  in no old string: writing it can neither complete nor begin an old string.
\<close>

definition values_plain :: "Replacer \<Rightarrow> bool" where
  "values_plain r \<longleftrightarrow>
     (\<forall>(k, v) \<in> set r. v \<noteq> [] \<and> CHR ''$'' \<notin> set v \<and> (\<forall>(k2, v2) \<in> set r. hd v \<notin> set k2))"

definition plain_image :: "string \<Rightarrow> bool" where
  "plain_image imageName \<longleftrightarrow>
     imageName \<noteq> [] \<and> CHR ''$'' \<notin> set imageName \<and>
     hd imageName \<notin> set ''${OPERAND_IMAGE}'' \<and> hd imageName \<notin> set ''${LOG_LEVEL}''"

definition managed :: OperatorSpec where
  "managed = \<lparr>ManagementState = ''Managed'', LogLevel = ''Normal'', OperatorLogLevel = ''Normal'',
              UnsupportedConfigOverrides = [], ObservedConfig = []\<rparr>"

definition tracing :: OperatorSpec where
  "tracing = \<lparr>ManagementState = ''Managed'', LogLevel = ''Trace'', OperatorLogLevel = ''Normal'',
              UnsupportedConfigOverrides = [], ObservedConfig = []\<rparr>"

definition tracing_unmanaged :: OperatorSpec where
  "tracing_unmanaged =
     \<lparr>ManagementState = ''Unmanaged'', LogLevel = ''Trace'', OperatorLogLevel = ''Debug'',
      UnsupportedConfigOverrides = ''{}'', ObservedConfig = ''{}''\<rparr>"

text \<open>A cluster that is multi-node at the first read and single-node from the second on.\<close>

definition flipping :: cluster where
  "flipping = \<lparr>topology = (\<lambda>n. \<lparr>isSNO = (0 < n), precheckSucceeded = True, err = None\<rparr>),
               reads = 0, klog = []\<rparr>"

text \<open>A cluster whose informer has not synced, and a steady multi-node cluster.\<close>

definition unsynced :: cluster where
  "unsynced = \<lparr>topology = (\<lambda>n. \<lparr>isSNO = False, precheckSucceeded = False, err = None\<rparr>),
               reads = 0, klog = []\<rparr>"

definition multi_node :: cluster where
  "multi_node = \<lparr>topology = (\<lambda>n. \<lparr>isSNO = False, precheckSucceeded = True, err = None\<rparr>),
                 reads = 0, klog = []\<rparr>"

text \<open>
  A cluster that has answered three reads as multi-node and answers every later read as
  single-node, each read succeeding without an error.
\<close>

definition shrinking :: cluster where
  "shrinking = \<lparr>topology = (\<lambda>n. \<lparr>isSNO = (3 < n), precheckSucceeded = True, err = None\<rparr>),
                reads = 3, klog = []\<rparr>"

text \<open>An environment in which every startup step succeeds, and two in which one fails.\<close>

definition healthy :: "bool \<Rightarrow> environment" where
  "healthy cancelled =
     \<lparr>kubeClientErr = None, configClientErr = None, apiExtClientErr = None,
      operatorClientErr = None, ReadFile = (\<lambda>f. Inr ''image: ${OPERAND_IMAGE}''),
      environ = Map.empty, ctxDone = cancelled\<rparr>"

definition no_config_client :: environment where
  "no_config_client = (healthy True)\<lparr>configClientErr := Some (Errorf ''no kubeconfig'')\<rparr>"

definition no_webhook_asset :: environment where
  "no_webhook_asset =
     (healthy True)\<lparr>ReadFile := (\<lambda>f. if f = ''webhook_deployment.yaml''
                                       then Inl (Errorf ''file does not exist'')
                                       else Inr ''image: ${OPERAND_IMAGE}'')\<rparr>"

definition three_at :: "string \<Rightarrow> SubComponents" where
  "three_at v = \<lparr>operatorPodImage = v, operandDeployment = v, webhookDeployment = v\<rparr>"

definition upgrading :: VersionRecord where
  "upgrading = \<lparr>reported = [''operator'' \<mapsto> ''4.12''], target = ''4.13''\<rparr>"

definition upgraded :: VersionRecord where
  "upgraded = \<lparr>reported = [''operator'' \<mapsto> ''4.13''], target = ''4.13''\<rparr>"


section \<open>The replacer\<close>

lemma lookup_Some: "lookup r s = Some (old, new) \<Longrightarrow> (old, new) \<in> set r \<and> old \<noteq> [] \<and> prefix old s"
  by (induction r) (auto split: if_splits)

lemma lookup_None: "lookup r s = None \<longleftrightarrow> (\<forall>(old, new) \<in> set r. old = [] \<or> \<not> prefix old s)"
  by (induction r) (auto split: if_splits)

lemma dollar_prefix_append:
  assumes k: "CHR ''$'' \<notin> set k'" and xs: "xs \<noteq> []"
  shows "prefix (CHR ''$'' # k') (xs @ CHR ''$'' # ys) \<longleftrightarrow> prefix (CHR ''$'' # k') xs"
proof
  assume "prefix (CHR ''$'' # k') (xs @ CHR ''$'' # ys)"
  then consider "prefix (CHR ''$'' # k') xs"
    | us where "CHR ''$'' # k' = xs @ us" "prefix us (CHR ''$'' # ys)"
    by (auto simp: prefix_append)
  then show "prefix (CHR ''$'' # k') xs"
  proof cases
    case 1
    then show ?thesis .
  next
    case 2
    show ?thesis
    proof (cases us)
      case Nil
      with 2 show ?thesis by simp
    next
      case (Cons u us')
      with 2 have "u = CHR ''$''" by simp
      with 2 Cons xs have "CHR ''$'' \<in> set k'"
        by (cases xs) auto
      with k show ?thesis by simp
    qed
  qed
next
  assume "prefix (CHR ''$'' # k') xs"
  then show "prefix (CHR ''$'' # k') (xs @ CHR ''$'' # ys)"
    by (rule prefix_prefix)
qed

lemma lookup_before_dollar:
  "dollar_keyed r \<Longrightarrow> xs \<noteq> [] \<Longrightarrow> lookup r (xs @ CHR ''$'' # ys) = lookup r xs"
proof (induction r)
  case Nil
  then show ?case by simp
next
  case (Cons p r)
  obtain old new where p: "p = (old, new)" by (cases p)
  from Cons.prems p obtain k' where old: "old = CHR ''$'' # k'" "CHR ''$'' \<notin> set k'"
    by (auto simp: dollar_keyed_def)
  from Cons.prems have r: "dollar_keyed r" by (simp add: dollar_keyed_def)
  have "prefix old (xs @ CHR ''$'' # ys) \<longleftrightarrow> prefix old xs"
    unfolding old using old(2) Cons.prems(2) by (rule dollar_prefix_append)
  with Cons.IH [OF r Cons.prems(2)] p show ?case by simp
qed

lemma lookup_not_dollar:
  "dollar_keyed r \<Longrightarrow> c \<noteq> CHR ''$'' \<Longrightarrow> lookup r (c # cs) = None"
  by (induction r) (auto simp: dollar_keyed_def)

lemma Replace_split_dollar:
  "dollar_keyed r \<Longrightarrow> Replace r (xs @ CHR ''$'' # ys) = Replace r xs @ Replace r (CHR ''$'' # ys)"
proof (induction r xs rule: Replace.induct)
  case (1 r)
  then show ?case by simp
next
  case (2 r c cs)
  have lk: "lookup r ((c # cs) @ CHR ''$'' # ys) = lookup r (c # cs)"
    using "2.prems" by (rule lookup_before_dollar) simp
  show ?case
  proof (cases "lookup r (c # cs)")
    case None
    with lk "2.IH"(1) [OF None "2.prems"] show ?thesis by simp
  next
    case (Some p)
    obtain old new where p: "p = (old, new)" by (cases p)
    from Some p have "prefix old (c # cs)" "old \<noteq> []"
      by (auto dest: lookup_Some)
    then have "length old - 1 \<le> length cs"
      by (cases old) (auto dest: prefix_length_le)
    then have "drop (length old - 1) (cs @ CHR ''$'' # ys) = drop (length old - 1) cs @ CHR ''$'' # ys"
      by simp
    with lk Some p "2.IH"(2) [OF Some [unfolded p] refl "2.prems"] show ?thesis by simp
  qed
qed

lemma Replace_no_dollar:
  "dollar_keyed r \<Longrightarrow> CHR ''$'' \<notin> set t \<Longrightarrow> Replace r (t @ post) = t @ Replace r post"
  by (induction t) (auto simp: lookup_not_dollar)

lemma Replace_key:
  "lookup r (k @ post) = Some (k, v) \<Longrightarrow> Replace r (k @ post) = v @ Replace r post"
  by (cases k) (auto dest: lookup_Some)

lemma Replace_key_free:
  "key_free r t \<Longrightarrow> Replace r t = t"
proof (induction t)
  case Nil
  then show ?case by simp
next
  case (Cons c t)
  from Cons.prems have "key_free r t"
    by (auto simp: key_free_def sublist_Cons_right)
  moreover from Cons.prems have "lookup r (c # t) = None"
    by (auto simp: lookup_None key_free_def sublist_Cons_right)
  ultimately show ?case using Cons.IH by simp
qed


section \<open>The hook's replacer\<close>

lemma dollar_keyed_replacer: "dollar_keyed (replacer imageName spec)"
  by (simp add: dollar_keyed_def replacer_def)

lemma key_free_replacer: "key_free (replacer imageName spec) t \<longleftrightarrow> token_free t"
  by (simp add: key_free_def replacer_def token_free_def)

lemma NewReplacer_pairs: "NewReplacer (pairs imageName spec) = Return (replacer imageName spec)"
  by (simp add: pairs_def replacer_def)

lemma hook_replaced:
  "replacePlaceholdersHook imageName (Some spec) manifest = Return (replaced imageName spec manifest, None)"
  by (simp add: replacePlaceholdersHook_def NewReplacer_pairs replaced_def)

lemma replaced_literal:
  "replaced imageName spec (literal k @ post) = spec_value imageName spec k @ replaced imageName spec post"
  by (cases k) (simp_all add: replaced_def replacer_def literal_def spec_value_def)

lemma replaced_token_free: "token_free t \<Longrightarrow> replaced imageName spec t = t"
  by (simp add: replaced_def Replace_key_free key_free_replacer)

lemma literal_dollar: "\<exists>k'. literal k = CHR ''$'' # k'"
  by (cases k) (simp_all add: literal_def)

lemma replaced_text_literal:
  assumes "token_free t"
  shows "replaced imageName spec (t @ literal k @ post) =
           t @ spec_value imageName spec k @ replaced imageName spec post"
proof -
  obtain k' where k: "literal k = CHR ''$'' # k'"
    using literal_dollar by blast
  have "replaced imageName spec (t @ literal k @ post) =
          replaced imageName spec t @ replaced imageName spec (literal k @ post)"
    unfolding replaced_def k using dollar_keyed_replacer
    by (simp add: Replace_split_dollar)
  with assms show ?thesis
    by (simp add: replaced_token_free replaced_literal)
qed

lemma replaced_template:
  "texts_token_free parts rest \<Longrightarrow>
     replaced imageName spec (spec_template parts rest) = spec_replace_all imageName spec parts rest"
proof (induction parts)
  case Nil
  then show ?case
    by (simp add: texts_token_free_def spec_template_def spec_replace_all_def replaced_token_free)
next
  case (Cons p parts)
  obtain t k where p: "p = (t, k)" by (cases p)
  from Cons.prems p have t: "token_free t" and rest: "texts_token_free parts rest"
    by (simp_all add: texts_token_free_def)
  have "spec_template (p # parts) rest = t @ literal k @ spec_template parts rest"
    by (simp add: p spec_template_def)
  moreover have "spec_replace_all imageName spec (p # parts) rest =
      t @ spec_value imageName spec k @ spec_replace_all imageName spec parts rest"
    by (simp add: p spec_replace_all_def)
  ultimately show ?case
    using replaced_text_literal [OF t] Cons.IH [OF rest] by simp
qed


section \<open>Every manifest is a template\<close>

lemma token_free_Cons:
  "token_free t \<Longrightarrow> \<not> prefix ''${OPERAND_IMAGE}'' (c # t) \<Longrightarrow> \<not> prefix ''${LOG_LEVEL}'' (c # t)
     \<Longrightarrow> token_free (c # t)"
  by (simp add: token_free_def sublist_Cons_right)

lemma template_exists:
  "\<exists>parts rest. texts_token_free parts rest \<and> spec_template parts rest = m"
proof (induction m rule: length_induct)
  case (1 m)
  show ?case
  proof (cases m)
    case Nil
    have "texts_token_free [] [] \<and> spec_template [] [] = []"
      by (simp add: texts_token_free_def spec_template_def token_free_def)
    with Nil show ?thesis by blast
  next
    case (Cons c cs)
    consider (img) "prefix ''${OPERAND_IMAGE}'' m" | (lvl) "prefix ''${LOG_LEVEL}'' m"
      | (plain) "\<not> prefix ''${OPERAND_IMAGE}'' m" "\<not> prefix ''${LOG_LEVEL}'' m"
      by blast
    then show ?thesis
    proof cases
      case img
      then obtain post where m: "m = literal OPERAND_IMAGE @ post"
        by (auto simp: prefix_def literal_def)
      then have "length post < length m" by (simp add: literal_def)
      with 1 obtain parts rest where
        "texts_token_free parts rest" "spec_template parts rest = post"
        by blast
      then have "texts_token_free (([], OPERAND_IMAGE) # parts) rest \<and>
                 spec_template (([], OPERAND_IMAGE) # parts) rest = m"
        using m by (simp add: texts_token_free_def spec_template_def token_free_def)
      then show ?thesis by blast
    next
      case lvl
      then obtain post where m: "m = literal LOG_LEVEL @ post"
        by (auto simp: prefix_def literal_def)
      then have "length post < length m" by (simp add: literal_def)
      with 1 obtain parts rest where
        "texts_token_free parts rest" "spec_template parts rest = post"
        by blast
      then have "texts_token_free (([], LOG_LEVEL) # parts) rest \<and>
                 spec_template (([], LOG_LEVEL) # parts) rest = m"
        using m by (simp add: texts_token_free_def spec_template_def token_free_def)
      then show ?thesis by blast
    next
      case plain
      from Cons 1 obtain parts rest where
        pr: "texts_token_free parts rest" "spec_template parts rest = cs"
        by auto
      show ?thesis
      proof (cases parts)
        case Nil
        with pr have "cs = rest" "token_free rest"
          by (simp_all add: spec_template_def texts_token_free_def)
        with plain Cons have "token_free (c # rest)"
          by (simp add: token_free_Cons)
        then have "texts_token_free [] (c # rest) \<and> spec_template [] (c # rest) = m"
          using Cons \<open>cs = rest\<close> by (simp add: texts_token_free_def spec_template_def)
        then show ?thesis by blast
      next
        case (Cons p parts')
        obtain t k where p: "p = (t, k)" by (cases p)
        from pr Cons p have t: "token_free t" and rest: "texts_token_free parts' rest"
          and cs: "cs = t @ literal k @ spec_template parts' rest"
          by (simp_all add: texts_token_free_def spec_template_def)
        from plain \<open>m = c # cs\<close> cs
        have "\<not> prefix ''${OPERAND_IMAGE}'' (c # t)" "\<not> prefix ''${LOG_LEVEL}'' (c # t)"
          by (auto dest: prefix_prefix)
        with t have "token_free (c # t)" by (simp add: token_free_Cons)
        with rest have "texts_token_free ((c # t, k) # parts') rest"
          by (simp add: texts_token_free_def)
        moreover have "spec_template ((c # t, k) # parts') rest = m"
          using \<open>m = c # cs\<close> cs by (simp add: spec_template_def)
        ultimately show ?thesis by blast
      qed
    qed
  qed
qed


section \<open>Placeholders the hook does not know\<close>

lemma prefix_closing:
  "c \<notin> set n \<Longrightarrow> c \<notin> set name \<Longrightarrow> prefix (n @ [c]) (name @ c # post) \<Longrightarrow> n = name"
proof (induction n arbitrary: name)
  case Nil
  then show ?case by (cases name) auto
next
  case (Cons a n)
  then show ?case by (cases name) auto
qed

lemma placeholder_no_key:
  assumes "unknown_name name"
  shows "lookup (replacer imageName spec) (placeholder name @ post) = None"
proof -
  from assms have c: "CHR ''}'' \<notin> set name" and n1: "name \<noteq> ''OPERAND_IMAGE''"
    and n2: "name \<noteq> ''LOG_LEVEL''"
    by (simp_all add: unknown_name_def)
  have "\<not> prefix (''OPERAND_IMAGE'' @ ''}'') (name @ CHR ''}'' # post)"
    using prefix_closing [of "CHR ''}''" "''OPERAND_IMAGE''" name post] c n1 by auto
  moreover have "\<not> prefix (''LOG_LEVEL'' @ ''}'') (name @ CHR ''}'' # post)"
    using prefix_closing [of "CHR ''}''" "''LOG_LEVEL''" name post] c n2 by auto
  ultimately show ?thesis
    by (simp add: replacer_def placeholder_def)
qed

lemma replaced_placeholder:
  assumes "unknown_name name"
  shows "replaced imageName spec (placeholder name @ post) =
           placeholder name @ replaced imageName spec post"
proof -
  let ?r = "replacer imageName spec"
  from assms have "CHR ''$'' \<notin> set (''{'' @ name @ ''}'')"
    by (simp add: unknown_name_def)
  then have "Replace ?r ((''{'' @ name @ ''}'') @ post) = (''{'' @ name @ ''}'') @ Replace ?r post"
    using dollar_keyed_replacer by (rule Replace_no_dollar [rotated])
  moreover have "Replace ?r (placeholder name @ post) =
      CHR ''$'' # Replace ?r ((''{'' @ name @ ''}'') @ post)"
    using placeholder_no_key [OF assms, of imageName spec post]
    by (simp add: placeholder_def)
  ultimately show ?thesis
    by (simp add: replaced_def placeholder_def)
qed

lemma replaced_around_placeholder:
  assumes "unknown_name name"
  shows "replaced imageName spec (pre @ placeholder name @ post) =
           replaced imageName spec pre @ placeholder name @ replaced imageName spec post"
proof -
  have "replaced imageName spec (pre @ placeholder name @ post) =
          replaced imageName spec pre @ replaced imageName spec (placeholder name @ post)"
    using dollar_keyed_replacer [of imageName spec]
    by (simp add: replaced_def placeholder_def Replace_split_dollar)
  with assms show ?thesis by (simp add: replaced_placeholder)
qed


section \<open>Outputs that hold no token\<close>

lemma prefix_of_output:
  assumes r: "values_plain r"
    and u: "\<forall>a \<in> set u. \<forall>(k, v) \<in> set r. a \<noteq> hd v"
  shows "prefix u (Replace r s) \<Longrightarrow> prefix u s"
  using u
proof (induction u arbitrary: s)
  case Nil
  then show ?case by simp
next
  case (Cons a u)
  show ?case
  proof (cases s)
    case Nil
    with Cons.prems show ?thesis by simp
  next
    case s: (Cons c cs)
    show ?thesis
    proof (cases "lookup r (c # cs)")
      case None
      with Cons.prems s have "a = c" "prefix u (Replace r cs)" by simp_all
      moreover from Cons.prems have "\<forall>a \<in> set u. \<forall>(k, v) \<in> set r. a \<noteq> hd v" by simp
      ultimately show ?thesis using Cons.IH s by simp
    next
      case (Some p)
      obtain old new where p: "p = (old, new)" by (cases p)
      from Some p have mem: "(old, new) \<in> set r" by (auto dest: lookup_Some)
      with r have "new \<noteq> []" by (auto simp: values_plain_def)
      with Cons.prems(1) s Some p have "a = hd new" by (cases new) simp_all
      with Cons.prems(2) mem show ?thesis by auto
    qed
  qed
qed

lemma key_not_prefix_of_output:
  assumes r: "values_plain r" and d: "dollar_keyed r" and k: "(k, v) \<in> set r"
  shows "\<not> prefix k (Replace r s)"
proof
  assume pre: "prefix k (Replace r s)"
  from d k obtain k' where k': "k = CHR ''$'' # k'" "CHR ''$'' \<notin> set k'"
    by (auto simp: dollar_keyed_def)
  show False
  proof (cases s)
    case Nil
    with pre k' show ?thesis by simp
  next
    case (Cons c cs)
    show ?thesis
    proof (cases "lookup r (c # cs)")
      case None
      with pre k' Cons have c: "c = CHR ''$''" and "prefix k' (Replace r cs)" by simp_all
      moreover from r k k' have "\<forall>a \<in> set k'. \<forall>(k2, v2) \<in> set r. a \<noteq> hd v2"
        by (fastforce simp: values_plain_def)
      ultimately have "prefix k' cs" using prefix_of_output [OF r] by blast
      with c k' have "prefix k (c # cs)" by simp
      with None k k' show ?thesis by (auto simp: lookup_None)
    next
      case (Some p)
      obtain old new where p: "p = (old, new)" by (cases p)
      from Some p have mem: "(old, new) \<in> set r" by (auto dest: lookup_Some)
      with r have "new \<noteq> []" "CHR ''$'' \<notin> set new" by (auto simp: values_plain_def)
      with pre k' Cons Some p show ?thesis by (cases new) auto
    qed
  qed
qed

lemma sublist_after_plain:
  "CHR ''$'' \<notin> set v \<Longrightarrow> sublist (CHR ''$'' # k') (v @ out) \<Longrightarrow> sublist (CHR ''$'' # k') out"
  by (induction v) (auto simp: sublist_Cons_right)

lemma output_key_free:
  "values_plain r \<Longrightarrow> dollar_keyed r \<Longrightarrow> key_free r (Replace r s)"
proof (induction r s rule: Replace.induct)
  case (1 r)
  then show ?case by (auto simp: key_free_def dollar_keyed_def)
next
  case (2 r c cs)
  show ?case
  proof (cases "lookup r (c # cs)")
    case None
    have "\<not> sublist k (Replace r (c # cs))" if k: "(k, v) \<in> set r" for k v
    proof -
      have "\<not> prefix k (Replace r (c # cs))"
        using "2.prems" k by (rule key_not_prefix_of_output)
      moreover have "\<not> sublist k (Replace r cs)"
        using "2.IH"(1) [OF None "2.prems"] k by (auto simp: key_free_def)
      ultimately show ?thesis using None by (simp add: sublist_Cons_right)
    qed
    then show ?thesis by (auto simp: key_free_def)
  next
    case (Some p)
    obtain old new where p: "p = (old, new)" by (cases p)
    from Some p have mem: "(old, new) \<in> set r" by (auto dest: lookup_Some)
    with "2.prems"(1) have new: "CHR ''$'' \<notin> set new" by (auto simp: values_plain_def)
    have "\<not> sublist k (Replace r (c # cs))" if k: "(k, v) \<in> set r" for k v
    proof
      assume sub: "sublist k (Replace r (c # cs))"
      from "2.prems"(2) k obtain k' where k': "k = CHR ''$'' # k'"
        by (auto simp: dollar_keyed_def)
      from sub Some p have "sublist (CHR ''$'' # k') (new @ Replace r (drop (length old - 1) cs))"
        by (simp add: k')
      with new have "sublist k (Replace r (drop (length old - 1) cs))"
        unfolding k' by (rule sublist_after_plain)
      with "2.IH"(2) [OF Some [unfolded p] refl "2.prems"] k show False
        by (auto simp: key_free_def)
    qed
    then show ?thesis by (auto simp: key_free_def)
  qed
qed

lemma Sprint_verbosity:
  "Sprint (LogLevelToVerbosity l) \<in> {''2'', ''4'', ''6'', ''8''}"
  by (simp add: LogLevelToVerbosity_def Sprint_def digit_def)

lemma values_plain_replacer:
  assumes "plain_image imageName"
  shows "values_plain (replacer imageName spec)"
proof -
  have "Sprint (LogLevelToVerbosity (LogLevel spec)) \<in> {''2'', ''4'', ''6'', ''8''}"
    by (rule Sprint_verbosity)
  with assms show ?thesis
    by (auto simp: values_plain_def replacer_def plain_image_def)
qed

lemma replaced_plain_token_free:
  assumes "plain_image imageName"
  shows "token_free (replaced imageName spec manifest)"
proof -
  have "key_free (replacer imageName spec) (Replace (replacer imageName spec) manifest)"
    using values_plain_replacer [OF assms] dollar_keyed_replacer by (rule output_key_free)
  then show ?thesis by (simp add: key_free_replacer replaced_def)
qed


section \<open>The two predicates\<close>

lemma shouldCreateFn_fst:
  "fst (shouldCreateFn c) \<longleftrightarrow> \<not> indeterminate (topology c (reads c)) \<and> \<not> isSNO (topology c (reads c))"
  by (simp add: shouldCreateFn_def NewIsSingleNodePlatformFn_def indeterminate_def split: option.splits)

lemma shouldDeleteFn_fst:
  "fst (shouldDeleteFn c) \<longleftrightarrow> \<not> indeterminate (topology c (reads c)) \<and> isSNO (topology c (reads c))"
  by (simp add: shouldDeleteFn_def NewIsSingleNodePlatformFn_def indeterminate_def split: option.splits)

lemma shouldCreateFn_snd:
  "topology (snd (shouldCreateFn c)) = topology c \<and> reads (snd (shouldCreateFn c)) = Suc (reads c)"
  by (simp add: shouldCreateFn_def NewIsSingleNodePlatformFn_def split: option.splits)

lemma shouldDeleteFn_snd:
  "topology (snd (shouldDeleteFn c)) = topology c \<and> reads (snd (shouldDeleteFn c)) = Suc (reads c)"
  by (simp add: shouldDeleteFn_def NewIsSingleNodePlatformFn_def split: option.splits)

lemma evalConditionalResources_eq:
  "evalConditionalResources c =
     ((fst (shouldCreateFn c), fst (shouldDeleteFn (snd (shouldCreateFn c)))),
      snd (shouldDeleteFn (snd (shouldCreateFn c))))"
  by (simp add: evalConditionalResources_def split: prod.splits)


section \<open>Startup\<close>

lemma RunOperator_failure:
  "startupFailures env \<noteq> [] \<Longrightarrow> RunOperator env p = (p, Returned (Some (hd (startupFailures env))))"
  by (simp add: RunOperator_def startupFailures_def split: option.splits sum.splits)

lemma RunOperator_started:
  "startupFailures env = [] \<Longrightarrow>
     snd (RunOperator env p) = (if ctxDone env then Returned (Some (Errorf ''stopped'')) else Blocked)"
  by (simp add: RunOperator_def startupFailures_def Let_def split: option.splits sum.splits)

lemma RunOperator_started_effects:
  "startupFailures env = [] \<Longrightarrow>
     informersStarted (fst (RunOperator env p)) = informersStarted p @
        [''dynamicInformers'', ''configInformers'', ''kubeInformersForNamespaces''] \<and>
     length (controllersRunning (fst (RunOperator env p))) = length (controllersRunning p) + 8"
  by (simp add: RunOperator_def startupFailures_def Let_def Info_def Start_def goRun_def split: option.splits sum.splits)

lemma RunOperator_not_nil: "snd (RunOperator env p) \<noteq> Returned None"
  by (cases "startupFailures env = []") (simp_all add: RunOperator_failure RunOperator_started)


section \<open>Aggregation passes\<close>

lemma advance_target: "target (advance co vr) = target vr"
  by (simp add: advance_def split: prod.splits)

lemma advance_keeps:
  "reported vr c = Some (target vr) \<Longrightarrow> reported (advance co vr) c = Some (target vr)"
  by (simp add: advance_def split: prod.splits)

lemma aggregationPass_keeps:
  "reported vr c = Some (target vr) \<Longrightarrow>
     reported (aggregationPass observed vr) c = Some (target vr) \<and>
     target (aggregationPass observed vr) = target vr"
  unfolding aggregationPass_def
proof (induction observed arbitrary: vr)
  case Nil
  then show ?case by simp
next
  case (Cons co observed)
  from Cons.prems have "reported (advance co vr) c = Some (target (advance co vr))"
    by (simp add: advance_keeps advance_target)
  from Cons.IH [OF this] show ?case by (simp add: advance_target)
qed

lemma aggregationPass_target: "target (aggregationPass observed vr) = target vr"
  unfolding aggregationPass_def
  by (induction observed arbitrary: vr) (simp_all add: advance_target)

lemma aggregationPasses_keeps:
  "reported vr c = Some (target vr) \<Longrightarrow>
     reported (aggregationPasses passes vr) c = Some (target vr)"
  unfolding aggregationPasses_def
proof (induction passes arbitrary: vr)
  case Nil
  then show ?case by simp
next
  case (Cons observed passes)
  from Cons.prems have "reported (aggregationPass observed vr) c = Some (target (aggregationPass observed vr))"
    by (simp add: aggregationPass_keeps)
  from Cons.IH [OF this] show ?case by (simp add: aggregationPass_target)
qed

lemma aggregationPass_advances:
  "reported (aggregationPass observed vr) c \<noteq> reported vr c \<Longrightarrow>
     reported (aggregationPass observed vr) c = Some (target vr) \<and>
     (\<exists>obs. (c, obs) \<in> set observed \<and> confirms (target vr) obs)"
  unfolding aggregationPass_def
proof (induction observed arbitrary: vr)
  case Nil
  then show ?case by simp
next
  case (Cons co observed)
  obtain c' obs' where co: "co = (c', obs')" by (cases co)
  show ?case
  proof (cases "reported (fold advance observed (advance co vr)) c = reported (advance co vr) c")
    case True
    with Cons.prems have "reported (advance co vr) c \<noteq> reported vr c" by simp
    then have "c' = c \<and> confirms (target vr) obs' \<and> reported (advance co vr) c = Some (target vr)"
      by (auto simp: advance_def co split: if_splits)
    with True co show ?thesis by auto
  next
    case False
    from Cons.IH [OF False] show ?thesis by (auto simp: advance_target)
  qed
qed

section \<open>The claims\<close>

text \<open>
  Claim C1, as stated: in every evaluation of the pair of predicates at most one of the
  two returns true. It fails: each predicate reads the topology itself, and on a cluster
  that turns single-node between the two reads of a pass, neither read being
  indeterminate, both predicates return true.
\<close>

theorem predicates_both_true_in_one_pass:
  "fst (fst (evalConditionalResources shrinking)) \<and>
   snd (fst (evalConditionalResources shrinking)) \<and>
   \<not> indeterminate (topology shrinking (reads shrinking)) \<and>
   \<not> indeterminate (topology shrinking (Suc (reads shrinking)))"
  by (simp add: evalConditionalResources_def shouldCreateFn_def shouldDeleteFn_def
      NewIsSingleNodePlatformFn_def indeterminate_def shrinking_def)

text \<open>
  Claim C1, amended: evaluated on one topology snapshot (the same read, or the two reads
  of a pass when they return the same answer), the multi-node predicate and the
  single-node predicate are never both true; and a predicate whose precheck returns an
  error or reports that it did not succeed returns false, so that neither resource set is
  enabled on indeterminate input.
\<close>

theorem predicates_exclusive_and_closed_on_indeterminate:
  "\<not> (fst (shouldCreateFn c) \<and> fst (shouldDeleteFn c)) \<and>
   (topology c (Suc (reads c)) = topology c (reads c) \<longrightarrow>
      \<not> (fst (fst (evalConditionalResources c)) \<and> snd (fst (evalConditionalResources c)))) \<and>
   (indeterminate (topology c (reads c)) \<longrightarrow> \<not> fst (shouldCreateFn c)) \<and>
   (indeterminate (topology c (reads c)) \<longrightarrow> \<not> fst (shouldDeleteFn c)) \<and>
   (indeterminate (topology c (reads c)) \<and> indeterminate (topology c (Suc (reads c))) \<longrightarrow>
      fst (evalConditionalResources c) = (False, False))"
  by (auto simp: evalConditionalResources_eq shouldCreateFn_fst shouldDeleteFn_fst
      shouldCreateFn_snd)

theorem predicates_exclusive_and_closed_on_indeterminate_witness:
  "\<not> (fst (shouldCreateFn multi_node) \<and> fst (shouldDeleteFn multi_node)) \<and>
   topology unsynced (Suc (reads unsynced)) = topology unsynced (reads unsynced) \<and>
   indeterminate (topology unsynced (reads unsynced)) \<and>
   indeterminate (topology unsynced (Suc (reads unsynced))) \<and>
   \<not> (fst (fst (evalConditionalResources unsynced)) \<and>
      snd (fst (evalConditionalResources unsynced))) \<and>
   \<not> fst (shouldCreateFn unsynced) \<and> \<not> fst (shouldDeleteFn unsynced) \<and>
   fst (evalConditionalResources unsynced) = (False, False) \<and>
   topology multi_node (Suc (reads multi_node)) = topology multi_node (reads multi_node) \<and>
   \<not> (fst (fst (evalConditionalResources multi_node)) \<and>
      snd (fst (evalConditionalResources multi_node)))"
  using predicates_exclusive_and_closed_on_indeterminate [of unsynced]
    predicates_exclusive_and_closed_on_indeterminate [of multi_node]
  by (simp add: unsynced_def multi_node_def indeterminate_def)

text \<open>
  Claim C2, as stated: within one pass both predicates are evaluated against one and the
  same topology snapshot, with no two separate reads. It fails: each closure calls the
  precheck itself. On a cluster that turns single-node between the two reads both
  predicates return true, which no single snapshot gives, and two reads were made.
\<close>

theorem pass_reads_topology_twice:
  "fst (evalConditionalResources flipping) = (True, True) \<and>
   fst (evalConditionalResources flipping) \<noteq>
     (fst (shouldCreateFn flipping), fst (shouldDeleteFn flipping)) \<and>
   reads (snd (evalConditionalResources flipping)) = reads flipping + 2"
  by (simp add: evalConditionalResources_def shouldCreateFn_def shouldDeleteFn_def
      NewIsSingleNodePlatformFn_def flipping_def)

text \<open>
  Claim C2, amended: within one pass each predicate makes its own read of the topology,
  two reads in all, the multi-node predicate deciding on the first and the single-node
  predicate on the second; when the two reads return the same snapshot, the outcomes are
  those of both predicates evaluated against that one snapshot.
\<close>

theorem pass_makes_one_read_per_predicate:
  "reads (snd (evalConditionalResources c)) = reads c + 2 \<and>
   fst (fst (evalConditionalResources c)) = fst (shouldCreateFn c) \<and>
   snd (fst (evalConditionalResources c)) = fst (shouldDeleteFn (c\<lparr>reads := Suc (reads c)\<rparr>)) \<and>
   (topology c (Suc (reads c)) = topology c (reads c) \<longrightarrow>
      fst (evalConditionalResources c) = (fst (shouldCreateFn c), fst (shouldDeleteFn c)))"
  by (simp add: evalConditionalResources_eq shouldCreateFn_fst shouldDeleteFn_fst
      shouldCreateFn_snd shouldDeleteFn_snd)

theorem pass_makes_one_read_per_predicate_witness:
  "topology multi_node (Suc (reads multi_node)) = topology multi_node (reads multi_node) \<and>
   reads (snd (evalConditionalResources multi_node)) = 2 \<and>
   fst (evalConditionalResources multi_node) =
     (fst (shouldCreateFn multi_node), fst (shouldDeleteFn multi_node))"
  using pass_makes_one_read_per_predicate [of multi_node]
  by (simp add: multi_node_def)

text \<open>
  Claim C3, as stated: applying the hook to its own output, with the same spec and image
  name, gives that output again. It fails when the first replacement splices the pieces of
  a token together: with an empty image name the manifest below becomes the log-level
  token, which a second application replaces.
\<close>

theorem hook_not_idempotent:
  "replacePlaceholdersHook [] (Some managed) ''$${OPERAND_IMAGE}{LOG_LEVEL}'' =
     Return (''${LOG_LEVEL}'', None) \<and>
   replacePlaceholdersHook [] (Some managed) ''${LOG_LEVEL}'' = Return (''2'', None) \<and>
   replaced [] managed (replaced [] managed ''$${OPERAND_IMAGE}{LOG_LEVEL}'') \<noteq>
     replaced [] managed ''$${OPERAND_IMAGE}{LOG_LEVEL}''"
  by (simp add: replacePlaceholdersHook_def pairs_def replaced_def replacer_def managed_def
      LogLevelToVerbosity_def Normal_def Sprint_def digit_def)

text \<open>
  Claim C3, amended: applying the hook to its own output gives that output again whenever
  the output holds no occurrence of either token, which is so for every manifest when the
  image name is non-empty, holds no dollar sign and begins with a byte that occurs in
  neither token; and every placeholder \<^verbatim>\<open>${NAME}\<close> other than the two tokens, whose name
  holds neither a dollar sign nor a closing brace, is copied to the output unchanged, the
  text before it and the text after it being replaced on their own.
\<close>

theorem hook_idempotent_on_token_free_output:
  "(replacePlaceholdersHook imageName (Some spec) manifest = Return (out, e) \<and> token_free out \<longrightarrow>
      replacePlaceholdersHook imageName (Some spec) out = Return (out, e)) \<and>
   (replacePlaceholdersHook imageName (Some spec) manifest = Return (out, e) \<and>
      plain_image imageName \<longrightarrow>
      replacePlaceholdersHook imageName (Some spec) out = Return (out, e)) \<and>
   (unknown_name name \<longrightarrow>
      replacePlaceholdersHook imageName (Some spec) (pre @ placeholder name @ post) =
        Return (replaced imageName spec pre @ placeholder name @ replaced imageName spec post,
                None))"
proof (intro conjI impI)
  assume "replacePlaceholdersHook imageName (Some spec) manifest = Return (out, e) \<and> token_free out"
  then have "e = None" "token_free out"
    by (simp_all add: hook_replaced)
  then show "replacePlaceholdersHook imageName (Some spec) out = Return (out, e)"
    by (simp add: hook_replaced replaced_token_free)
next
  assume "replacePlaceholdersHook imageName (Some spec) manifest = Return (out, e) \<and>
    plain_image imageName"
  then have "e = None" "out = replaced imageName spec manifest" "plain_image imageName"
    by (auto simp: hook_replaced)
  then show "replacePlaceholdersHook imageName (Some spec) out = Return (out, e)"
    by (simp add: hook_replaced replaced_token_free replaced_plain_token_free)
next
  assume "unknown_name name"
  then show "replacePlaceholdersHook imageName (Some spec) (pre @ placeholder name @ post) =
    Return (replaced imageName spec pre @ placeholder name @ replaced imageName spec post, None)"
    by (simp add: hook_replaced replaced_around_placeholder)
qed

theorem hook_idempotent_on_token_free_output_witness:
  "replacePlaceholdersHook ''quay.io/csi:v1'' (Some tracing) ''image: ${OPERAND_IMAGE}'' =
     Return (''image: quay.io/csi:v1'', None) \<and>
   token_free ''image: quay.io/csi:v1'' \<and> plain_image ''quay.io/csi:v1'' \<and>
   unknown_name ''FOO'' \<and>
   replacePlaceholdersHook ''quay.io/csi:v1'' (Some tracing) ''image: quay.io/csi:v1'' =
     Return (''image: quay.io/csi:v1'', None) \<and>
   replacePlaceholdersHook ''quay.io/csi:v1'' (Some tracing)
       (''-v=${LOG_LEVEL} '' @ placeholder ''FOO'' @ '' ${OPERAND_IMAGE}'') =
     Return (''-v=6 ${FOO} quay.io/csi:v1'', None)"
proof -
  have first: "replacePlaceholdersHook ''quay.io/csi:v1'' (Some tracing) ''image: ${OPERAND_IMAGE}'' =
      Return (''image: quay.io/csi:v1'', None)"
    by (simp add: replacePlaceholdersHook_def pairs_def)
  have free: "token_free ''image: quay.io/csi:v1''"
    by (simp add: token_free_def sublist_Cons_right)
  have plain: "plain_image ''quay.io/csi:v1''"
    by (simp add: plain_image_def)
  have unknown: "unknown_name ''FOO''"
    by (simp add: unknown_name_def)
  have pre: "replaced ''quay.io/csi:v1'' tracing ''-v=${LOG_LEVEL} '' = ''-v=6 ''"
    by (simp add: replaced_def replacer_def tracing_def LogLevelToVerbosity_def Normal_def
        Debug_def Trace_def Sprint_def digit_def)
  have post: "replaced ''quay.io/csi:v1'' tracing '' ${OPERAND_IMAGE}'' = '' quay.io/csi:v1''"
    by (simp add: replaced_def replacer_def)
  from hook_idempotent_on_token_free_output
    [of "''quay.io/csi:v1''" tracing "''image: ${OPERAND_IMAGE}''" "''image: quay.io/csi:v1''"
      None "''FOO''" "''-v=${LOG_LEVEL} ''" "'' ${OPERAND_IMAGE}''"]
    first free plain unknown pre post
  show ?thesis by (simp add: placeholder_def)
qed

text \<open>
  Claim C4. The output of the hook is the input manifest with every occurrence of
  \<^verbatim>\<open>${OPERAND_IMAGE}\<close> replaced by the image name and every occurrence of
  \<^verbatim>\<open>${LOG_LEVEL}\<close> replaced by the decimal rendering of the verbosity of the spec's log
  level, all occurrences and not only the first: however a manifest is cut into texts
  holding no token, each followed by a token, and a last text, the output is the same texts
  with each token replaced by its value; and every manifest can be cut so.
\<close>

theorem hook_replaces_every_occurrence:
  "(texts_token_free parts rest \<longrightarrow>
      replacePlaceholdersHook imageName (Some spec) (spec_template parts rest) =
        Return (spec_replace_all imageName spec parts rest, None)) \<and>
   (\<exists>parts rest. texts_token_free parts rest \<and> spec_template parts rest = manifest)"
  by (simp add: hook_replaced replaced_template template_exists)

theorem hook_replaces_every_occurrence_witness:
  "texts_token_free
     [(''image: '', OPERAND_IMAGE), ('' -v='', LOG_LEVEL), ('' '', OPERAND_IMAGE)] '' ${FOO}'' \<and>
   replacePlaceholdersHook ''quay.io/csi:v1'' (Some tracing)
     ''image: ${OPERAND_IMAGE} -v=${LOG_LEVEL} ${OPERAND_IMAGE} ${FOO}'' =
     Return (''image: quay.io/csi:v1 -v=6 quay.io/csi:v1 ${FOO}'', None)"
proof -
  let ?parts = "[(''image: '', OPERAND_IMAGE), ('' -v='', LOG_LEVEL), ('' '', OPERAND_IMAGE)]"
  have free: "texts_token_free ?parts '' ${FOO}''"
    by (simp add: texts_token_free_def token_free_def sublist_Cons_right)
  have template: "spec_template ?parts '' ${FOO}'' =
      ''image: ${OPERAND_IMAGE} -v=${LOG_LEVEL} ${OPERAND_IMAGE} ${FOO}''"
    by (simp add: spec_template_def literal_def)
  have result: "spec_replace_all ''quay.io/csi:v1'' tracing ?parts '' ${FOO}'' =
      ''image: quay.io/csi:v1 -v=6 quay.io/csi:v1 ${FOO}''"
    by (simp add: spec_replace_all_def spec_value_def tracing_def LogLevelToVerbosity_def
        Normal_def Debug_def Trace_def Sprint_def digit_def)
  from hook_replaces_every_occurrence [of ?parts "'' ${FOO}''" "''quay.io/csi:v1''" tracing]
    free template result
  show ?thesis by simp
qed

text \<open>
  Claim C5. Once startup has passed, \<^verbatim>\<open>RunOperator\<close> blocks until the cancellation signal
  fires and then returns the error whose message is "stopped": it returns that error when
  the context is cancelled and does not return when it never is; and it never returns
  the nil error.
\<close>

theorem RunOperator_stops_with_error:
  "(startupFailures env = [] \<longrightarrow>
      snd (RunOperator env p) =
        (if ctxDone env then Returned (Some (Errorf ''stopped'')) else Blocked)) \<and>
   snd (RunOperator env p) \<noteq> Returned None"
  by (simp add: RunOperator_started RunOperator_not_nil)

theorem RunOperator_stops_with_error_witness:
  "startupFailures (healthy True) = [] \<and>
   snd (RunOperator (healthy True) fresh) = Returned (Some (Errorf ''stopped'')) \<and>
   startupFailures (healthy False) = [] \<and>
   snd (RunOperator (healthy False) fresh) = Blocked"
  using RunOperator_stops_with_error [of "healthy True" fresh]
    RunOperator_stops_with_error [of "healthy False" fresh]
  by (simp add: startupFailures_def healthy_def)

text \<open>
  Claim C6. Once a component's reported version equals the target version, no later
  aggregation pass rewrites it to another value; and a pass that changes a component's
  reported version changes it to the target, after the operator pod image, the operand
  deployment and the webhook deployment of that component each confirmed the target.
\<close>

theorem reported_version_advances_once:
  "(reported vr c = Some (target vr) \<longrightarrow>
      reported (aggregationPasses passes vr) c = Some (target vr)) \<and>
   (reported (aggregationPass observed vr) c \<noteq> reported vr c \<longrightarrow>
      reported (aggregationPass observed vr) c = Some (target vr) \<and>
      (\<exists>obs. (c, obs) \<in> set observed \<and> confirms (target vr) obs))"
  using aggregationPasses_keeps [of vr c passes] aggregationPass_advances [of observed vr c]
  by blast

theorem reported_version_advances_once_witness:
  "reported upgraded ''operator'' = Some (target upgraded) \<and>
   reported (aggregationPasses
      [[(''operator'', three_at ''4.12'')], [(''operator'', three_at ''4.13'')]] upgraded)
      ''operator'' = Some ''4.13'' \<and>
   reported (aggregationPass [(''operator'', three_at ''4.13'')] upgrading) ''operator'' \<noteq>
     reported upgrading ''operator'' \<and>
   reported (aggregationPass [(''operator'', three_at ''4.13'')] upgrading) ''operator'' =
     Some ''4.13'' \<and>
   confirms (target upgrading) (three_at ''4.13'')"
proof -
  have kept: "reported upgraded ''operator'' = Some (target upgraded)"
    by (simp add: upgraded_def)
  have changed:
    "reported (aggregationPass [(''operator'', three_at ''4.13'')] upgrading) ''operator'' \<noteq>
       reported upgrading ''operator''"
    by (simp add: aggregationPass_def advance_def confirms_def three_at_def upgrading_def)
  from reported_version_advances_once
    [of upgraded "''operator''"
      "[[(''operator'', three_at ''4.12'')], [(''operator'', three_at ''4.13'')]]"
      "[(''operator'', three_at ''4.13'')]"]
    reported_version_advances_once
    [of upgrading "''operator''" "[]" "[(''operator'', three_at ''4.13'')]"]
    kept changed
  show ?thesis
    by (simp add: upgraded_def upgrading_def confirms_def three_at_def)
qed

text \<open>
  Claim C7. If the construction of the kube client, the config client, the API-extensions
  client or the operator client fails, or the reading of either deployment manifest, then
  \<^verbatim>\<open>RunOperator\<close> returns the error of the first step that failed and has done nothing
  else: no informer was started and no controller was launched.
\<close>

theorem RunOperator_fails_before_starting:
  "startupFailures env \<noteq> [] \<longrightarrow>
     RunOperator env p = (p, Returned (Some (hd (startupFailures env)))) \<and>
     informersStarted (fst (RunOperator env p)) = informersStarted p \<and>
     controllersRunning (fst (RunOperator env p)) = controllersRunning p"
  by (simp add: RunOperator_failure)

theorem RunOperator_fails_before_starting_witness:
  "startupFailures no_config_client \<noteq> [] \<and>
   RunOperator no_config_client fresh = (fresh, Returned (Some (Errorf ''no kubeconfig''))) \<and>
   startupFailures no_webhook_asset \<noteq> [] \<and>
   RunOperator no_webhook_asset fresh = (fresh, Returned (Some (Errorf ''file does not exist''))) \<and>
   informersStarted fresh = [] \<and> controllersRunning fresh = []"
  using RunOperator_fails_before_starting [of no_config_client fresh]
    RunOperator_fails_before_starting [of no_webhook_asset fresh]
  by (simp add: startupFailures_def no_config_client_def no_webhook_asset_def healthy_def
      fresh_def)

text \<open>
  Claim C8. The mapping from the log level to the verbosity written for
  \<^verbatim>\<open>${LOG_LEVEL}\<close> is a function of the level alone, defined for every value; along the
  levels Normal, Debug, Trace, TraceAll the verbosity never decreases; and every
  verbosity lies in the range 0 to 10.
\<close>

theorem verbosity_monotonic_in_range:
  "sorted (map LogLevelToVerbosity logLevels) \<and>
   (\<forall>logLevel. LogLevelToVerbosity logLevel \<in> {0..10})"
  by (simp add: logLevels_def LogLevelToVerbosity_def Normal_def Debug_def Trace_def
      TraceAll_def)

text \<open>
  Claim C9. The result of the hook is determined by the image name, the manifest and the
  log level of the spec: two specs with the same log level give the same result, whatever
  their other fields.
\<close>

theorem hook_depends_on_log_level_only:
  "LogLevel spec1 = LogLevel spec2 \<longrightarrow>
     replacePlaceholdersHook imageName (Some spec1) manifest =
     replacePlaceholdersHook imageName (Some spec2) manifest"
  by (simp add: replacePlaceholdersHook_def pairs_def)

theorem hook_depends_on_log_level_only_witness:
  "LogLevel tracing = LogLevel tracing_unmanaged \<and> tracing \<noteq> tracing_unmanaged \<and>
   replacePlaceholdersHook ''quay.io/csi:v1'' (Some tracing) ''-v=${LOG_LEVEL}'' =
   replacePlaceholdersHook ''quay.io/csi:v1'' (Some tracing_unmanaged) ''-v=${LOG_LEVEL}''"
  using hook_depends_on_log_level_only
    [of tracing tracing_unmanaged "''quay.io/csi:v1''" "''-v=${LOG_LEVEL}''"]
  by (simp add: tracing_def tracing_unmanaged_def)

text \<open>
  Claim C10. For every operator spec, every manifest and every image name, the empty one
  of an unset environment variable included, the hook returns a manifest and the nil
  error: it neither panics nor returns an error.
\<close>

theorem hook_never_fails:
  "(\<exists>out. replacePlaceholdersHook imageName (Some spec) manifest = Return (out, None)) \<and>
   (\<exists>out. replacePlaceholdersHook [] (Some spec) manifest = Return (out, None)) \<and>
   (\<exists>out. controllerDeploymentHook env (Some spec) manifest = Return (out, None)) \<and>
   (\<exists>out. webhookDeploymentHook env (Some spec) manifest = Return (out, None))"
  by (simp add: hook_replaced controllerDeploymentHook_def webhookDeploymentHook_def)

end
